theory Spec2Isabelle
  imports Main "HOL-Library.Multiset"
begin

section \<open>Go strings and the parts of the standard library the handlers call\<close>

text \<open>
  A Go string is a sequence of bytes; \<open>string\<close> (a list of 8-bit \<open>char\<close>) is the same.
  \<open>strings.HasPrefix\<close>, \<open>strings.Contains\<close> and the slice \<open>s[n:]\<close> work on bytes.
\<close>

definition HasPrefix :: "string \<Rightarrow> string \<Rightarrow> bool" where
  "HasPrefix s pre = (take (length pre) s = pre)"

fun Contains :: "string \<Rightarrow> string \<Rightarrow> bool" where
  "Contains [] substr = (substr = [])"
| "Contains (c # cs) substr = (HasPrefix (c # cs) substr \<or> Contains cs substr)"

subsection \<open>\<open>fmt.Sscanf(s, "%d", &num)\<close> with \<open>num\<close> an \<open>int\<close> (64 bits)\<close>

text \<open>
  The scanner reads runes. The verb \<open>%d\<close> first skips white space (a newline is an
  error, since \<open>Sscanf\<close> does not treat newlines as space), then accepts one optional sign,
  then needs at least one decimal digit and takes every digit that follows; the token is
  handed to \<open>strconv.ParseInt(tok, 10, 64)\<close>, which fails when the value does not fit in
  64 bits. Whatever follows the digits is left unread and is no error.

  The only runes the scan tells apart are white space, the two signs and the ten digits.
  Signs and digits are single bytes. White space is the table \<open>space\<close> of package fmt:
  U+0009..U+000D, U+0020, and beyond ASCII U+0085, U+00A0, U+1680, U+2000..U+200A, U+2028,
  U+2029, U+202F, U+205F, U+3000, which the reader meets as their UTF-8 encodings.
\<close>

definition isSpaceByte :: "char \<Rightarrow> bool" where
  "isSpaceByte c = ((9::nat) \<le> of_char c \<and> of_char c \<le> (13::nat) \<or> of_char c = (32::nat))"

definition utf8_space :: "nat list list" where
  "utf8_space =
     [[194, 133], [194, 160], [225, 154, 128],
      [226, 128, 128], [226, 128, 129], [226, 128, 130], [226, 128, 131],
      [226, 128, 132], [226, 128, 133], [226, 128, 134], [226, 128, 135],
      [226, 128, 136], [226, 128, 137], [226, 128, 138],
      [226, 128, 168], [226, 128, 169], [226, 128, 175], [226, 129, 159],
      [227, 128, 128]]"

text \<open>The number of bytes of the white-space rune at the head of the input; 0 if there is none.\<close>

definition space_width :: "string \<Rightarrow> nat" where
  "space_width s =
     (case s of
        [] \<Rightarrow> 0
      | c # cs \<Rightarrow>
          if isSpaceByte c then 1
          else (case find (\<lambda>enc. take (length enc) (map of_char s) = enc) utf8_space of
                  None \<Rightarrow> 0
                | Some enc \<Rightarrow> length enc))"

datatype scan_error = UnexpectedNewline | UnexpectedEOF | ExpectedInteger | ValueOutOfRange

function SkipSpace :: "string \<Rightarrow> scan_error + string" where
  "SkipSpace s =
     (if s = [] then Inr []
      else if hd s = CHR 0x0A then Inl UnexpectedNewline
      else if space_width s = 0 then Inr s
      else SkipSpace (drop (space_width s) s))"
  by pat_completeness auto
termination
  by (relation "measure length") auto

declare SkipSpace.simps [simp del]

definition isDigit :: "char \<Rightarrow> bool" where
  "isDigit c = ((48::nat) \<le> of_char c \<and> of_char c \<le> (57::nat))"

definition isSign :: "char \<Rightarrow> bool" where
  "isSign c = (c = CHR ''+'' \<or> c = CHR ''-'')"

definition digit_val :: "char \<Rightarrow> int" where
  "digit_val c = int (of_char c) - 48"

definition decimal_value :: "string \<Rightarrow> int" where
  "decimal_value ds = foldl (\<lambda>acc c. 10 * acc + digit_val c) 0 ds"

definition MaxInt64 :: int where
  "MaxInt64 = 2 ^ 63 - 1"

definition MinInt64 :: int where
  "MinInt64 = - (2 ^ 63)"

text \<open>\<open>strconv.ParseInt(tok, 10, 64)\<close> on a token that is an optional sign and then digits.\<close>

definition ParseInt :: "string \<Rightarrow> string \<Rightarrow> scan_error + int" where
  "ParseInt sg ds =
     (let v = (if sg = ''-'' then - decimal_value ds else decimal_value ds)
      in if v < MinInt64 \<or> MaxInt64 < v then Inl ValueOutOfRange else Inr v)"

definition scanInt :: "string \<Rightarrow> scan_error + int" where
  "scanInt s =
     (case SkipSpace s of
        Inl e \<Rightarrow> Inl e
      | Inr s1 \<Rightarrow>
          if s1 = [] then Inl UnexpectedEOF
          else
            let sg = (if isSign (hd s1) then [hd s1] else []);
                s2 = (if isSign (hd s1) then tl s1 else s1);
                ds = takeWhile isDigit s2
            in if s2 = [] then Inl UnexpectedEOF
               else if ds = [] then Inl ExpectedInteger
               else ParseInt sg ds)"

text \<open>The pair \<open>(count, err)\<close> that \<open>Sscanf\<close> returns, with the value stored in \<open>num\<close>.\<close>

definition Sscanf_d :: "string \<Rightarrow> int option" where
  "Sscanf_d s = (case scanInt s of Inl e \<Rightarrow> None | Inr v \<Rightarrow> Some v)"

subsection \<open>\<open>fmt.Sprintf("backup%d", max)\<close>\<close>

text \<open>The decimal digits of a number that is not negative, most significant first.\<close>

definition digit_char :: "int \<Rightarrow> char" where
  "digit_char d = char_of (48 + d)"

function show_digits :: "int \<Rightarrow> string" where
  "show_digits n =
     (if n < 10 then [digit_char n] else show_digits (n div 10) @ [digit_char (n mod 10)])"
  by pat_completeness auto
termination
  by (relation "measure nat") auto

declare show_digits.simps [simp del]

definition show_int :: "int \<Rightarrow> string" where
  "show_int i = (if i < 0 then CHR ''-'' # show_digits (- i) else show_digits i)"

subsection \<open>Arithmetic of the Go type \<open>int\<close>\<close>

text \<open>On the 64-bit platforms the daemon is built for, \<open>int\<close> wraps around modulo \<open>2 ^ 64\<close>.\<close>

definition int64 :: "int \<Rightarrow> int" where
  "int64 x = (x + 2 ^ 63) mod 2 ^ 64 - 2 ^ 63"

section \<open>Storage volume backups: choosing a name\<close>

text \<open>
  Modelled from the spec: the constant \<open>internalInstance.SnapshotDelimiter\<close> is declared
  outside the source files verified here; the prefix the generated name is matched against is
  the volume name, a slash and the word backup.
\<close>

definition SnapshotDelimiter :: string where
  "SnapshotDelimiter = ''/''"

text \<open>
  The loop of \<open>storagePoolVolumeTypeCustomBackupsPost\<close> over the names of the existing
  backups, with the running value of \<open>max\<close>.
\<close>

fun backup_name_loop :: "string \<Rightarrow> string list \<Rightarrow> int \<Rightarrow> int" where
  "backup_name_loop base [] mx = mx"
| "backup_name_loop base (backup # backups) mx =
     (if \<not> HasPrefix backup base then backup_name_loop base backups mx
      else
        (case Sscanf_d (drop (length base) backup) of
           None \<Rightarrow> backup_name_loop base backups mx
         | Some num \<Rightarrow>
             if num \<ge> mx then backup_name_loop base backups (int64 (num + 1))
             else backup_name_loop base backups mx))"

definition next_backup_number :: "string \<Rightarrow> string list \<Rightarrow> int" where
  "next_backup_number volumeName backups =
     backup_name_loop (volumeName @ SnapshotDelimiter @ ''backup'') backups 0"

definition generated_backup_name :: "string \<Rightarrow> string list \<Rightarrow> string" where
  "generated_backup_name volumeName backups =
     ''backup'' @ show_int (next_backup_number volumeName backups)"

text \<open>
  What one existing backup contributes to the loop: the number \<open>Sscanf\<close> reads after the
  prefix, if the name has the prefix and the scan succeeds.
\<close>

definition backup_number :: "string \<Rightarrow> string \<Rightarrow> int option" where
  "backup_number base backup =
     (if HasPrefix backup base then Sscanf_d (drop (length base) backup) else None)"

definition backup_numbers :: "string \<Rightarrow> string list \<Rightarrow> int set" where
  "backup_numbers base backups = {k. \<exists>b \<in> set backups. backup_number base b = Some k}"

text \<open>
  The name as the specification words it, for comparison with the code: the numbers that
  count are those of the names that consist of the prefix and then decimal digits only,
  and the result is one more than the largest, or 0 when there is none.
\<close>

definition claimed_backup_numbers :: "string \<Rightarrow> string list \<Rightarrow> int list" where
  "claimed_backup_numbers base backups =
     map (\<lambda>b. decimal_value (drop (length base) b))
       (filter (\<lambda>b. HasPrefix b base \<and> drop (length base) b \<noteq> []
                     \<and> list_all isDigit (drop (length base) b)) backups)"

definition claimed_backup_name :: "string \<Rightarrow> string list \<Rightarrow> string" where
  "claimed_backup_name volumeName backups =
     ''backup'' @ show_int
       (case claimed_backup_numbers (volumeName @ ''/backup'') backups of
          [] \<Rightarrow> 0
        | k # ks \<Rightarrow> fold max ks k + 1)"

section \<open>Storage volume backups: the handlers that create and rename\<close>

text \<open>
  The two handlers read the request and the daemon through calls whose code is outside
  the source files verified here (the router's path variables, the database, the JSON decoder, the
  cluster forwarding, the operation registry). Each such call is a field of the record
  \<open>request_env\<close>: the outcome the call has for the request being served. The handlers
  themselves are functions of that record, with the source's order of checks and
  returns.
\<close>

datatype error = errors_New string | fmt_Errorf string string

record StorageVolumeBackupsPost =
  Name :: string
  ExpiresAt :: int
  VolumeOnly :: bool
  OptimizedStorage :: bool
  CompressionAlgorithm :: string
  Target :: "string option"

record StorageVolumeBackupPost =
  NewName :: string

record StoragePoolVolumeBackup =
  backup_Name :: string
  backup_VolumeID :: int
  backup_ExpiryDate :: int
  backup_VolumeOnly :: bool
  backup_OptimizedStorage :: bool
  backup_CompressionAlgorithm :: string

text \<open>What the function handed to \<open>operations.OperationCreate\<close> does when the operation runs.\<close>

datatype run_action =
    CreateBackup StoragePoolVolumeBackup "string option"
  | RenameBackup string string

datatype operation_type = CustomVolumeBackupCreate | CustomVolumeBackupRename

record operation =
  op_type :: operation_type
  op_resources :: "(string \<times> string list) list"
  op_run :: run_action

datatype response =
    BadRequest error
  | SmartError error
  | InternalError error
  | Forwarded string
  | OperationResponse operation

record request_env =
  var_volumeName :: "error + string"
  var_poolName :: "error + string"
  var_type :: "error + string"
  var_backupName :: "error + string"
  VolumeTypeNameToDBType :: "string \<Rightarrow> error + int"
  StoragePoolVolumeTypeCustom :: int
  StorageVolumeProject :: "error + string"
  AllowBackupCreation :: "string \<Rightarrow> error option"
  forwardedResponseIfTargetIsRemote :: "string option"
  GetStoragePool :: "string \<Rightarrow> error + int"
  forwardedResponseIfVolumeIsRemote :: "string option"
  GetStoragePoolVolume :: "error + int"
  body_Decode :: "error option"
  body_Marshal :: "error option"
  body_Unmarshal :: "error + StorageVolumeBackupsPost"
  GetStoragePoolVolumeBackupsNames :: "error + string list"
  body_Decode_rename :: "error + StorageVolumeBackupPost"
  storagePoolVolumeBackupLoadByName :: "string \<Rightarrow> error option"
  APIVersion :: string
  OperationCreate :: "error option"

text \<open>
  A handler returns its response together with the operations it has registered: the
  backup is created, or renamed, only by a registered operation running.
\<close>

type_synonym handled = "response \<times> operation list"

subsection \<open>\<open>storagePoolVolumeTypeCustomBackupsPost\<close>: create a backup\<close>

text \<open>
  The request as the handler has it once the body is decoded: the values the later part
  works with, or the response of the check that ended the request before.
\<close>

record backups_post_request =
  r_volumeName :: string
  r_poolName :: string
  r_volumeTypeName :: string
  r_projectName :: string
  r_poolID :: int
  r_volumeID :: int
  r_req :: StorageVolumeBackupsPost

definition backupsPost_request :: "request_env \<Rightarrow> response + backups_post_request" where
  "backupsPost_request env =
     (case var_volumeName env of Inl err \<Rightarrow> Inl (SmartError err) | Inr volumeName \<Rightarrow>
      (case var_poolName env of Inl err \<Rightarrow> Inl (SmartError err) | Inr poolName \<Rightarrow>
      (case var_type env of Inl err \<Rightarrow> Inl (SmartError err) | Inr volumeTypeName \<Rightarrow>
      (case VolumeTypeNameToDBType env volumeTypeName of Inl err \<Rightarrow> Inl (BadRequest err)
      | Inr volumeType \<Rightarrow>
      if volumeType \<noteq> StoragePoolVolumeTypeCustom env
      then Inl (BadRequest (fmt_Errorf ''Invalid storage volume type %q'' volumeTypeName))
      else
      (case StorageVolumeProject env of Inl err \<Rightarrow> Inl (SmartError err) | Inr projectName \<Rightarrow>
      (case AllowBackupCreation env projectName of Some err \<Rightarrow> Inl (SmartError err) | None \<Rightarrow>
      (case forwardedResponseIfTargetIsRemote env of Some resp \<Rightarrow> Inl (Forwarded resp) | None \<Rightarrow>
      (case GetStoragePool env poolName of Inl err \<Rightarrow> Inl (SmartError err) | Inr poolID \<Rightarrow>
      (case forwardedResponseIfVolumeIsRemote env of Some resp \<Rightarrow> Inl (Forwarded resp) | None \<Rightarrow>
      (case GetStoragePoolVolume env of Inl err \<Rightarrow> Inl (SmartError err) | Inr volumeID \<Rightarrow>
      (case body_Decode env of Some err \<Rightarrow> Inl (InternalError err) | None \<Rightarrow>
      (case body_Marshal env of Some err \<Rightarrow> Inl (InternalError err) | None \<Rightarrow>
      (case body_Unmarshal env of Inl err \<Rightarrow> Inl (BadRequest err) | Inr req \<Rightarrow>
      Inr \<lparr>r_volumeName = volumeName, r_poolName = poolName,
           r_volumeTypeName = volumeTypeName, r_projectName = projectName,
           r_poolID = poolID, r_volumeID = volumeID, r_req = req\<rparr>)))))))))))))"

text \<open>
  The name the backup gets: the requested one, or the generated one when none is
  requested. Reading the existing names can fail.
\<close>

definition backupsPost_name :: "request_env \<Rightarrow> backups_post_request \<Rightarrow> error + string" where
  "backupsPost_name env rq =
     (if Name (r_req rq) = ''''
      then (case GetStoragePoolVolumeBackupsNames env of
              Inl err \<Rightarrow> Inl err
            | Inr backups \<Rightarrow> Inr (generated_backup_name (r_volumeName rq) backups))
      else Inr (Name (r_req rq)))"

definition storagePoolVolumeTypeCustomBackupsPost :: "request_env \<Rightarrow> handled" where
  "storagePoolVolumeTypeCustomBackupsPost env =
     (case backupsPost_request env of
        Inl resp \<Rightarrow> (resp, [])
      | Inr rq \<Rightarrow>
          (case backupsPost_name env rq of
             Inl err \<Rightarrow> (BadRequest err, [])
           | Inr name \<Rightarrow>
               if Contains name ''/''
               then (BadRequest (errors_New ''Backup names may not contain slashes''), [])
               else
                 let fullName = r_volumeName rq @ SnapshotDelimiter @ name;
                     args = \<lparr>backup_Name = fullName, backup_VolumeID = r_volumeID rq,
                             backup_ExpiryDate = ExpiresAt (r_req rq),
                             backup_VolumeOnly = VolumeOnly (r_req rq),
                             backup_OptimizedStorage = OptimizedStorage (r_req rq),
                             backup_CompressionAlgorithm = CompressionAlgorithm (r_req rq)\<rparr>;
                     resources =
                       [(''storage_volumes'',
                           [APIVersion env, ''storage-pools'', r_poolName rq, ''volumes'',
                            r_volumeTypeName rq, r_volumeName rq]),
                        (''backups'',
                           [APIVersion env, ''storage-pools'', r_poolName rq, ''volumes'',
                            r_volumeTypeName rq, r_volumeName rq, ''backups'', name])];
                     op = \<lparr>op_type = CustomVolumeBackupCreate, op_resources = resources,
                           op_run = CreateBackup args (Target (r_req rq))\<rparr>
                 in (case OperationCreate env of
                       Some err \<Rightarrow> (InternalError err, [])
                     | None \<Rightarrow> (OperationResponse op, [op]))))"

subsection \<open>\<open>storagePoolVolumeTypeCustomBackupPost\<close>: rename a backup\<close>

record backup_post_request =
  n_volumeName :: string
  n_poolName :: string
  n_volumeTypeName :: string
  n_backupName :: string
  n_projectName :: string
  n_req :: StorageVolumeBackupPost

definition backupPost_request :: "request_env \<Rightarrow> response + backup_post_request" where
  "backupPost_request env =
     (case var_volumeName env of Inl err \<Rightarrow> Inl (SmartError err) | Inr volumeName \<Rightarrow>
      (case var_poolName env of Inl err \<Rightarrow> Inl (SmartError err) | Inr poolName \<Rightarrow>
      (case var_type env of Inl err \<Rightarrow> Inl (SmartError err) | Inr volumeTypeName \<Rightarrow>
      (case var_backupName env of Inl err \<Rightarrow> Inl (SmartError err) | Inr backupName \<Rightarrow>
      (case VolumeTypeNameToDBType env volumeTypeName of Inl err \<Rightarrow> Inl (BadRequest err)
      | Inr volumeType \<Rightarrow>
      if volumeType \<noteq> StoragePoolVolumeTypeCustom env
      then Inl (BadRequest (fmt_Errorf ''Invalid storage volume type %q'' volumeTypeName))
      else
      (case StorageVolumeProject env of Inl err \<Rightarrow> Inl (SmartError err) | Inr projectName \<Rightarrow>
      (case forwardedResponseIfTargetIsRemote env of Some resp \<Rightarrow> Inl (Forwarded resp) | None \<Rightarrow>
      (case forwardedResponseIfVolumeIsRemote env of Some resp \<Rightarrow> Inl (Forwarded resp) | None \<Rightarrow>
      (case body_Decode_rename env of Inl err \<Rightarrow> Inl (BadRequest err) | Inr req \<Rightarrow>
      Inr \<lparr>n_volumeName = volumeName, n_poolName = poolName,
           n_volumeTypeName = volumeTypeName, n_backupName = backupName,
           n_projectName = projectName, n_req = req\<rparr>)))))))))"

definition storagePoolVolumeTypeCustomBackupPost :: "request_env \<Rightarrow> handled" where
  "storagePoolVolumeTypeCustomBackupPost env =
     (case backupPost_request env of
        Inl resp \<Rightarrow> (resp, [])
      | Inr rq \<Rightarrow>
          if Contains (NewName (n_req rq)) ''/''
          then (BadRequest (errors_New ''Backup names may not contain slashes''), [])
          else
            let oldName = n_volumeName rq @ SnapshotDelimiter @ n_backupName rq
            in (case storagePoolVolumeBackupLoadByName env oldName of
                  Some err \<Rightarrow> (SmartError err, [])
                | None \<Rightarrow>
                    let newName = n_volumeName rq @ SnapshotDelimiter @ NewName (n_req rq);
                        resources =
                          [(''storage_volumes'',
                              [APIVersion env, ''storage-pools'', n_poolName rq, ''volumes'',
                               n_volumeTypeName rq, n_volumeName rq]),
                           (''backups'',
                              [APIVersion env, ''storage-pools'', n_poolName rq, ''volumes'',
                               n_volumeTypeName rq, n_volumeName rq, ''backups'', oldName])];
                        op = \<lparr>op_type = CustomVolumeBackupRename, op_resources = resources,
                              op_run = RenameBackup oldName newName\<rparr>
                    in (case OperationCreate env of
                          Some err \<Rightarrow> (InternalError err, [])
                        | None \<Rightarrow> (OperationResponse op, [op]))))"

text \<open>
  A request on which every check before the name validation passes: volume \<open>vol\<close> of the
  pool \<open>default\<close>, of the custom type, no forwarding, the existing backup \<open>backup0\<close> to
  rename, and the backup name given in the body.
\<close>

definition sample_env :: "string \<Rightarrow> request_env" where
  "sample_env name =
     \<lparr>var_volumeName = Inr ''vol'', var_poolName = Inr ''default'', var_type = Inr ''custom'',
      var_backupName = Inr ''backup0'',
      VolumeTypeNameToDBType = (\<lambda>t. if t = ''custom'' then Inr 2 else Inl (errors_New ''Invalid storage volume type name'')),
      StoragePoolVolumeTypeCustom = 2,
      StorageVolumeProject = Inr ''default'',
      AllowBackupCreation = (\<lambda>p. None),
      forwardedResponseIfTargetIsRemote = None,
      GetStoragePool = (\<lambda>p. Inr 1),
      forwardedResponseIfVolumeIsRemote = None,
      GetStoragePoolVolume = Inr 7,
      body_Decode = None, body_Marshal = None,
      body_Unmarshal = Inr \<lparr>Name = name, ExpiresAt = 0, VolumeOnly = False,
                            OptimizedStorage = False, CompressionAlgorithm = '''',
                            Target = None\<rparr>,
      GetStoragePoolVolumeBackupsNames = Inr [''vol/backup0''],
      body_Decode_rename = Inr \<lparr>NewName = name\<rparr>,
      storagePoolVolumeBackupLoadByName = (\<lambda>n. None),
      APIVersion = ''1.0'',
      OperationCreate = None\<rparr>"

section \<open>Certificates: \<open>certificateValidate\<close>\<close>

text \<open>
  The fields of \<open>x509.Certificate\<close> the check reads. Instants of time are integers. The
  field \<open>PublicKey\<close> has the interface type \<open>any\<close>: the datatype lists the key types the
  parser of package x509 produces, and \<open>NoKey\<close> for a key it could not read.
\<close>

datatype PublicKeyAlgorithm = UnknownPublicKeyAlgorithm | RSA | DSA | ECDSA | Ed25519

record rsa_PublicKey =
  rsa_N :: int
  rsa_E :: int

datatype public_key =
    RSAPublicKey rsa_PublicKey
  | ECDSAPublicKey
  | Ed25519PublicKey
  | NoKey

record Certificate =
  NotBefore :: int
  NotAfter :: int
  PublicKeyAlgorithm :: PublicKeyAlgorithm
  PublicKey :: public_key

text \<open>
  \<open>big.Int.BitLen\<close>: the length of the absolute value in bits, 0 for 0; and
  \<open>rsa.PublicKey.Size\<close>, the size of the modulus in bytes, \<open>(N.BitLen() + 7) / 8\<close>.
\<close>

function BitLen :: "int \<Rightarrow> int" where
  "BitLen n = (if n = 0 then 0 else 1 + BitLen (\<bar>n\<bar> div 2))"
  by pat_completeness auto
termination
  by (relation "measure (\<lambda>n. nat \<bar>n\<bar>)") auto

declare BitLen.simps [simp del]

definition Size :: "rsa_PublicKey \<Rightarrow> int" where
  "Size pub = (BitLen (rsa_N pub) + 7) div 8"

text \<open>
  The errors of \<open>certificateValidate\<close>, in the order of its returns: "The provided
  certificate isn't valid yet", "The provided certificate is expired", "Unable to
  validate the RSA certificate", "RSA key is too weak (minimum of 2048bit)".
\<close>

datatype certificate_error = NotValidYet | Expired | UnableToValidateRSA | RSAKeyTooWeak

text \<open>
  The function reads the clock twice, once for each bound: \<open>now1\<close> and \<open>now2\<close> are the two
  readings. \<open>None\<close> is the return of \<open>nil\<close>.
\<close>

definition certificateValidate :: "int \<Rightarrow> int \<Rightarrow> Certificate \<Rightarrow> certificate_error option" where
  "certificateValidate now1 now2 cert =
     (if now1 < NotBefore cert then Some NotValidYet
      else if now2 > NotAfter cert then Some Expired
      else if PublicKeyAlgorithm cert = RSA then
        (case PublicKey cert of
           RSAPublicKey pubKey \<Rightarrow>
             if Size pubKey * 8 < 2048 then Some RSAKeyTooWeak else None
         | _ \<Rightarrow> Some UnableToValidateRSA)
      else None)"

text \<open>
  A certificate valid from instant 0 to instant 1000 whose RSA modulus is
  \<open>2 ^ 2040 + 1\<close>, a number of 2041 bits.
\<close>

definition modulus_2041 :: int where
  "modulus_2041 = 2 ^ 2040 + 1"

definition cert_2041 :: Certificate where
  "cert_2041 =
     \<lparr>NotBefore = 0, NotAfter = 1000, PublicKeyAlgorithm = RSA,
      PublicKey = RSAPublicKey \<lparr>rsa_N = modulus_2041, rsa_E = 65537\<rparr>\<rparr>"

section \<open>The declarations of instance\_interface.go\<close>

text \<open>
  The file declares types and no function bodies. What a claim says about the shape of
  a struct or the signature of a method is a statement about these declarations, so
  they are written down as data: a Go type, and for each struct the list of its fields
  with their types, in the order of the source.
\<close>

datatype go_type =
    GoBool
  | GoString
  | GoUint
  | GoError
  | GoNamed string
  | GoPointer go_type
  | GoFunc "go_type list" "go_type list"

type_synonym struct_decl = "(string \<times> go_type) list"


definition MigrateArgs :: struct_decl where
  "MigrateArgs =
     [(''ControlSend'', GoFunc [GoNamed ''proto.Message''] [GoError]),
      (''ControlReceive'', GoFunc [GoNamed ''proto.Message''] [GoError]),
      (''StateConn'', GoFunc [GoNamed ''context.Context''] [GoNamed ''io.ReadWriteCloser'', GoError]),
      (''FilesystemConn'', GoFunc [GoNamed ''context.Context''] [GoNamed ''io.ReadWriteCloser'', GoError]),
      (''Snapshots'', GoBool),
      (''Live'', GoBool),
      (''Disconnect'', GoFunc [] []),
      (''ClusterMoveSourceName'', GoString),
      (''StoragePool'', GoString)]"

text \<open>The two structs that embed \<open>MigrateArgs\<close> have its fields and then their own.\<close>

definition MigrateSendArgs :: struct_decl where
  "MigrateSendArgs = MigrateArgs @ [(''AllowInconsistent'', GoBool)]"

definition MigrateReceiveArgs :: struct_decl where
  "MigrateReceiveArgs =
     MigrateArgs @
     [(''InstanceOperation'', GoPointer (GoNamed ''operationlock.InstanceOperation'')),
      (''Refresh'', GoBool),
      (''RefreshExcludeOlder'', GoBool)]"

text \<open>The methods of the interface \<open>Instance\<close> under the comment "Migration."\<close>

definition Instance_migration_methods :: struct_decl where
  "Instance_migration_methods =
     [(''CanMigrate'', GoFunc [] [GoString]),
      (''MigrateSend'', GoFunc [GoNamed ''MigrateSendArgs''] [GoError]),
      (''MigrateReceive'', GoFunc [GoNamed ''MigrateReceiveArgs''] [GoError])]"

definition field_type :: "struct_decl \<Rightarrow> string \<Rightarrow> go_type option" where
  "field_type decl name = map_of decl name"

subsection \<open>The transfer channels\<close>

text \<open>
  A factory of a connection: a function that returns a connection (and an error). It
  takes a cancellation context when \<open>context.Context\<close> is among its parameters.
\<close>

fun is_conn_factory :: "go_type \<Rightarrow> bool" where
  "is_conn_factory (GoFunc params results) = (GoNamed ''io.ReadWriteCloser'' \<in> set results)"
| "is_conn_factory _ = False"

fun takes_context :: "go_type \<Rightarrow> bool" where
  "takes_context (GoFunc params results) = (GoNamed ''context.Context'' \<in> set params)"
| "takes_context _ = False"

datatype channel = Control | State | Filesystem

text \<open>The fields of \<open>MigrateArgs\<close> through which each channel reaches the session.\<close>

fun channel_fields :: "channel \<Rightarrow> string list" where
  "channel_fields Control = [''ControlSend'', ''ControlReceive'']"
| "channel_fields State = [''StateConn'']"
| "channel_fields Filesystem = [''FilesystemConn'']"

definition context_factory_field :: "struct_decl \<Rightarrow> string \<Rightarrow> bool" where
  "context_factory_field decl name =
     (case field_type decl name of
        None \<Rightarrow> False
      | Some t \<Rightarrow> is_conn_factory t \<and> takes_context t)"

text \<open>The claim as the specification words it: every field of every channel is such a factory.\<close>

definition channels_by_context_factories :: "struct_decl \<Rightarrow> bool" where
  "channels_by_context_factories decl =
     list_all (\<lambda>ch. list_all (context_factory_field decl) (channel_fields ch))
       [Control, State, Filesystem]"

subsection \<open>What the descriptor of a send carries\<close>

text \<open>
  The items of configuration the specification lists for the descriptor, and for each
  field of the struct the item it stands for, if any.
\<close>

datatype descriptor_item =
    InstanceIdentity
  | StoragePoolReference
  | SnapshotsIncluded
  | MustBeLive
  | InconsistentCopyAcceptable
  | ClusterMoveSource
  | ChannelFactory channel

fun item_of_field :: "string \<Rightarrow> descriptor_item option" where
  "item_of_field name =
     (if name = ''StoragePool'' then Some StoragePoolReference
      else if name = ''Snapshots'' then Some SnapshotsIncluded
      else if name = ''Live'' then Some MustBeLive
      else if name = ''AllowInconsistent'' then Some InconsistentCopyAcceptable
      else if name = ''ClusterMoveSourceName'' then Some ClusterMoveSource
      else if name = ''ControlSend'' \<or> name = ''ControlReceive'' then Some (ChannelFactory Control)
      else if name = ''StateConn'' then Some (ChannelFactory State)
      else if name = ''FilesystemConn'' then Some (ChannelFactory Filesystem)
      else None)"

definition specified_items :: "descriptor_item list" where
  "specified_items =
     [InstanceIdentity, StoragePoolReference, SnapshotsIncluded, MustBeLive,
      InconsistentCopyAcceptable, ClusterMoveSource,
      ChannelFactory Control, ChannelFactory State, ChannelFactory Filesystem]"

text \<open>
  The claim as the specification words it: the struct carries every listed item and
  nothing else.
\<close>

definition carries_exactly :: "struct_decl \<Rightarrow> descriptor_item list \<Rightarrow> bool" where
  "carries_exactly decl items =
     (list_all (\<lambda>i. i \<in> set (List.map_filter item_of_field (map fst decl))) items
      \<and> list_all (\<lambda>name. case item_of_field name of None \<Rightarrow> False | Some i \<Rightarrow> i \<in> set items)
            (map fst decl))"

subsection \<open>The arguments of a checkpoint\<close>





section \<open>The checkpoint adapter\<close>

text \<open>
  Modelled from the spec: the checkpoint adapter (its two variants and the query
  \<open>CanLiveMigrate\<close>) has no code in the source files verified here, which only declare
  the method \<open>CanMigrate() string\<close> of \<open>Instance\<close>. The definitions follow sections 4.3
  and 9 of the specification: a capability interface with a live-capable implementation
  and an unsupported stub.
\<close>

text \<open>
  The external dump facility behind the live-capable implementation: for a process
  handle, the two directories and the flag, the blob it writes and the number of the
  iteration, or nothing when the tool fails.
\<close>

type_synonym dump_facility = "nat \<Rightarrow> string \<Rightarrow> string \<Rightarrow> bool \<Rightarrow> (string \<times> nat) option"

text \<open>
  Modelled from the spec: the absent capability interface (section 4.3), with its two
  variants. The live-capable one holds the dump facility and the feature bitmask.
\<close>

datatype CheckpointAdapter =
    LiveCapable dump_facility nat
  | Unsupported

text \<open>
  Modelled from the spec: the absent query \<open>CanLiveMigrate\<close> (section 4.3), which the
  unsupported stub answers with false.
\<close>

fun CanLiveMigrate :: "CheckpointAdapter \<Rightarrow> bool" where
  "CanLiveMigrate (LiveCapable tool features) = True"
| "CanLiveMigrate Unsupported = False"

section \<open>The operation lock\<close>

text \<open>
  Modelled from the spec: the lock registry (package operationlock) has no code in the
  files at hand, which only declare the method \<open>LockExclusive\<close> of \<open>Instance\<close>. The
  definitions follow sections 3 and 4.1 of the specification. A lock is keyed by the
  instance identifier and has an action kind, a state and a terminal error; the owning
  task, the creation time and the completion signal play no part in what is proved
  here, and a waiter reads the completion off the state. The registry holds the locks
  created so far; an entry leaves it, once terminal, by \<open>Prune\<close>.
\<close>

datatype lock_state = Pending | Running | Succeeded | Failed

datatype lock_error = LockConflict | Aborted | NotPending | SessionError string

record InstanceOperationLock =
  lock_handle :: nat
  lock_instance :: string
  lock_action :: string
  lock_state :: lock_state
  lock_terminal_error :: "lock_error option"

record lock_registry =
  entries :: "InstanceOperationLock list"
  next_handle :: nat

definition empty_registry :: lock_registry where
  "empty_registry = \<lparr>entries = [], next_handle = 0\<rparr>"

fun terminal :: "lock_state \<Rightarrow> bool" where
  "terminal Pending = False"
| "terminal Running = False"
| "terminal Succeeded = True"
| "terminal Failed = True"

text \<open>The locks of an instance that have not reached a terminal state.\<close>

definition held :: "string \<Rightarrow> InstanceOperationLock \<Rightarrow> bool" where
  "held instanceID l = (lock_instance l = instanceID \<and> \<not> terminal (lock_state l))"

definition non_terminal_locks :: "lock_registry \<Rightarrow> string \<Rightarrow> InstanceOperationLock list" where
  "non_terminal_locks reg instanceID = filter (held instanceID) (entries reg)"

definition held_lock :: "lock_registry \<Rightarrow> string \<Rightarrow> InstanceOperationLock option" where
  "held_lock reg instanceID = find (held instanceID) (entries reg)"

text \<open>
  Modelled from the spec: \<open>Acquire(instanceID, action)\<close> of the absent lock registry
  (section 4.1) gives a new lock handle, or the existing handle for await
  when the action is the same, or \<open>LockConflict\<close> when a different action holds the
  instance.
\<close>

datatype acquired = NewLock nat | ExistingLock nat

definition Acquire ::
  "lock_registry \<Rightarrow> string \<Rightarrow> string \<Rightarrow> (lock_error + acquired) \<times> lock_registry"
where
  "Acquire reg instanceID action =
     (case held_lock reg instanceID of
        Some l \<Rightarrow>
          if lock_action l = action then (Inr (ExistingLock (lock_handle l)), reg)
          else (Inl LockConflict, reg)
      | None \<Rightarrow>
          (Inr (NewLock (next_handle reg)),
           \<lparr>entries = entries reg @
               [\<lparr>lock_handle = next_handle reg, lock_instance = instanceID,
                 lock_action = action, lock_state = Pending, lock_terminal_error = None\<rparr>],
            next_handle = Suc (next_handle reg)\<rparr>))"

definition update_lock ::
  "nat \<Rightarrow> (InstanceOperationLock \<Rightarrow> InstanceOperationLock) \<Rightarrow> lock_registry \<Rightarrow> lock_registry"
where
  "update_lock h f reg =
     reg\<lparr>entries := map (\<lambda>l. if lock_handle l = h then f l else l) (entries reg)\<rparr>"

text \<open>
  Modelled from the spec: \<open>MarkRunning()\<close> of the absent lock registry (section 4.1) takes
  the lock from Pending to Running; it fails if the lock is not Pending.
\<close>

definition MarkRunning :: "lock_registry \<Rightarrow> nat \<Rightarrow> lock_error option \<times> lock_registry" where
  "MarkRunning reg h =
     (case find (\<lambda>l. lock_handle l = h) (entries reg) of
        None \<Rightarrow> (Some NotPending, reg)
      | Some l \<Rightarrow>
          if lock_state l = Pending
          then (None,
                update_lock h
                  (\<lambda>l. if lock_state l = Pending then l\<lparr>lock_state := Running\<rparr> else l) reg)
          else (Some NotPending, reg))"

text \<open>
  Modelled from the spec: \<open>Done(err)\<close> of the absent lock registry (section 4.1) takes the
  lock from Running to Succeeded if \<open>err\<close> is nil, to Failed otherwise; no change if the
  lock is already terminal.
\<close>

definition Done :: "lock_registry \<Rightarrow> nat \<Rightarrow> lock_error option \<Rightarrow> lock_registry" where
  "Done reg h err =
     update_lock h
       (\<lambda>l. if lock_state l = Running
            then l\<lparr>lock_state := (if err = None then Succeeded else Failed),
                   lock_terminal_error := err\<rparr>
            else l) reg"

text \<open>
  Modelled from the spec: \<open>Reset()\<close> of the absent lock registry (section 4.1) makes the
  lock of the instance that is not terminal Failed, with the error \<open>Aborted\<close>.
\<close>

definition Reset :: "lock_registry \<Rightarrow> string \<Rightarrow> lock_registry" where
  "Reset reg instanceID =
     reg\<lparr>entries :=
           map (\<lambda>l. if held instanceID l
                    then l\<lparr>lock_state := Failed, lock_terminal_error := Some Aborted\<rparr>
                    else l) (entries reg)\<rparr>"

text \<open>
  Modelled from the spec: the removal of entries from the absent lock registry
  (section 3); only terminal entries are removed.
\<close>

definition Prune :: "lock_registry \<Rightarrow> lock_registry" where
  "Prune reg = reg\<lparr>entries := filter (\<lambda>l. \<not> terminal (lock_state l)) (entries reg)\<rparr>"

text \<open>The calls a registry receives over its life, and the registry they lead to.\<close>

datatype lock_call =
    CallAcquire string string
  | CallMarkRunning nat
  | CallDone nat "lock_error option"
  | CallReset string
  | CallPrune

fun call :: "lock_registry \<Rightarrow> lock_call \<Rightarrow> lock_registry" where
  "call reg (CallAcquire instanceID action) = snd (Acquire reg instanceID action)"
| "call reg (CallMarkRunning h) = snd (MarkRunning reg h)"
| "call reg (CallDone h err) = Done reg h err"
| "call reg (CallReset instanceID) = Reset reg instanceID"
| "call reg CallPrune = Prune reg"

definition run_calls :: "lock_call list \<Rightarrow> lock_registry" where
  "run_calls calls = foldl call empty_registry calls"

text \<open>The invariant of the registry: no instance has two locks that are not terminal.\<close>

definition single_holder :: "lock_registry \<Rightarrow> bool" where
  "single_holder reg = (\<forall>i. length (non_terminal_locks reg i) \<le> 1)"

section \<open>The cluster move\<close>

text \<open>
  Modelled from the spec: the coordinator of a cluster move has no code in the files at
  hand, which only declare the field \<open>ClusterMoveSourceName\<close>. The definitions follow
  sections 4.4 (steps 5 to 7), 4.5, 5 and 6 of the specification. The source has sent
  its data and waits for the destination; what it observes of the destination is a
  sequence of events: progress on the transfer, the frame \<open>ACK\<close> by which the destination
  confirms that the instance is activated, the frame \<open>ABORT\<close>, or the loss of the
  destination by a crash or a disconnect. The wait for the confirmation is bounded: when
  the events end and none has settled the move, the wait times out.
\<close>

datatype destination_event =
    SYNC nat
  | FilesystemComplete
  | ACK
  | ABORT string
  | Crash
  | Disconnect

datatype move_status = MoveInProgress | MoveSucceeded | MoveFailed

datatype coordinator_action =
    ObserveAck
  | StopSource
  | DeleteSourceRecord
  | ReportFailed

record cluster_move =
  status :: move_status
  source_record_present :: bool
  source_runnable :: bool
  ack_observed :: bool
  actions :: "coordinator_action list"

definition move_start :: cluster_move where
  "move_start =
     \<lparr>status = MoveInProgress, source_record_present = True, source_runnable = True,
      ack_observed = False, actions = []\<rparr>"

text \<open>
  Modelled from the spec: the steps of the absent coordinator (section 4.5). On the
  confirmation the source instance is stopped and its identity record deleted,
  the deletion being the last action. On anything that ends the session without the
  confirmation the operation is marked failed and the source is left as it is.
\<close>

definition move_fail :: "cluster_move \<Rightarrow> cluster_move" where
  "move_fail m = m\<lparr>status := MoveFailed, actions := actions m @ [ReportFailed]\<rparr>"

definition move_confirm :: "cluster_move \<Rightarrow> cluster_move" where
  "move_confirm m =
     m\<lparr>status := MoveSucceeded, ack_observed := True, source_runnable := False,
       source_record_present := False,
       actions := actions m @ [ObserveAck, StopSource, DeleteSourceRecord]\<rparr>"

fun move_step :: "cluster_move \<Rightarrow> destination_event \<Rightarrow> cluster_move" where
  "move_step m e =
     (if status m \<noteq> MoveInProgress then m
      else (case e of
              SYNC offset \<Rightarrow> m
            | FilesystemComplete \<Rightarrow> m
            | ACK \<Rightarrow> move_confirm m
            | ABORT reason \<Rightarrow> move_fail m
            | Crash \<Rightarrow> move_fail m
            | Disconnect \<Rightarrow> move_fail m))"

text \<open>
  Modelled from the spec: the run of the absent coordinator (sections 4.5 and 5), as the
  state of the move after a number of events and at the end of the bounded wait.
\<close>

definition move_after :: "destination_event list \<Rightarrow> cluster_move" where
  "move_after events = foldl move_step move_start events"

definition Move :: "destination_event list \<Rightarrow> cluster_move" where
  "Move events =
     (let m = move_after events
      in if status m = MoveInProgress then move_fail m else m)"

text \<open>
  In a list of actions, the deletion of the record comes only after the confirmation
  has been observed.
\<close>

fun deletion_after_ack :: "bool \<Rightarrow> coordinator_action list \<Rightarrow> bool" where
  "deletion_after_ack seen [] = True"
| "deletion_after_ack seen (a # as) =
     (if a = DeleteSourceRecord then seen \<and> deletion_after_ack seen as
      else deletion_after_ack (seen \<or> a = ObserveAck) as)"

text \<open>The three states a move can be in.\<close>

definition move_settled :: "cluster_move \<Rightarrow> bool" where
  "move_settled m =
     (m = move_start \<or> m = move_fail move_start \<or> m = move_confirm move_start)"

section \<open>Proofs\<close>

subsection \<open>The scan and the loop over the existing backups\<close>

lemma ParseInt_range: "ParseInt sg ds = Inr v \<Longrightarrow> MinInt64 \<le> v \<and> v \<le> MaxInt64"
  by (auto simp: ParseInt_def Let_def split: if_splits)

lemma scanInt_range: "scanInt s = Inr v \<Longrightarrow> MinInt64 \<le> v \<and> v \<le> MaxInt64"
  unfolding scanInt_def Let_def
  by (auto split: sum.splits if_splits dest: ParseInt_range)

lemma Sscanf_d_range: "Sscanf_d s = Some v \<Longrightarrow> MinInt64 \<le> v \<and> v \<le> MaxInt64"
  by (auto simp: Sscanf_d_def split: sum.splits dest: scanInt_range)

lemma int64_id: "MinInt64 \<le> x \<Longrightarrow> x \<le> MaxInt64 \<Longrightarrow> int64 x = x"
  by (simp add: int64_def MinInt64_def MaxInt64_def)

lemma backup_numbers_Nil: "backup_numbers base [] = {}"
  by (simp add: backup_numbers_def)

lemma backup_numbers_Cons:
  "backup_numbers base (b # bs) =
     (case backup_number base b of None \<Rightarrow> backup_numbers base bs
      | Some k \<Rightarrow> insert k (backup_numbers base bs))"
  by (auto simp: backup_numbers_def split: option.splits)

lemma finite_backup_numbers: "finite (backup_numbers base backups)"
  by (induction backups) (auto simp: backup_numbers_Nil backup_numbers_Cons split: option.splits)

lemma backup_name_loop_step:
  "backup_name_loop base (b # bs) mx =
     (case backup_number base b of
        None \<Rightarrow> backup_name_loop base bs mx
      | Some num \<Rightarrow> backup_name_loop base bs (if num \<ge> mx then int64 (num + 1) else mx))"
  by (simp add: backup_number_def split: option.splits)

lemma Max_insert_le:
  assumes "finite S" and "a \<le> b"
  shows "Max (insert a (insert b S)) = Max (insert b S)"
proof -
  have "b \<le> Max (insert b S)"
    using assms(1) by (intro Max_ge) auto
  with assms(2) have le: "a \<le> Max (insert b S)"
    by (rule order_trans)
  have "Max (insert a (insert b S)) = max a (Max (insert b S))"
    using assms(1) by (intro Max_insert) auto
  with le show ?thesis
    by (simp only: max_absorb2)
qed

lemma Max_insert_ge:
  assumes "finite S" and "b \<le> a"
  shows "Max (insert a (insert b S)) = Max (insert a S)"
proof -
  have "Max (insert b (insert a S)) = Max (insert a S)"
    using assms by (rule Max_insert_le)
  then show ?thesis
    by (simp only: insert_commute [of a b])
qed

lemma backup_name_loop_Max:
  "\<forall>k \<in> backup_numbers base backups. k < MaxInt64 \<Longrightarrow> 0 \<le> mx \<Longrightarrow> mx \<le> MaxInt64 \<Longrightarrow>
   backup_name_loop base backups mx = Max (insert mx ((\<lambda>k. k + 1) ` backup_numbers base backups))"
proof (induction backups arbitrary: mx)
  case Nil
  then show ?case by (simp add: backup_numbers_Nil)
next
  case (Cons b bs)
  let ?S = "(\<lambda>k. k + 1) ` backup_numbers base bs"
  have fin: "finite ?S" by (simp add: finite_backup_numbers)
  show ?case
  proof (cases "backup_number base b")
    case None
    with Cons show ?thesis
      by (simp add: backup_name_loop_step backup_numbers_Cons del: backup_name_loop.simps)
  next
    case (Some num)
    have num_in: "num \<in> backup_numbers base (b # bs)"
      using Some by (simp add: backup_numbers_Cons)
    then have lt: "num < MaxInt64" using Cons.prems(1) by blast
    have ge: "MinInt64 \<le> num"
      using Some Sscanf_d_range by (auto simp: backup_number_def split: if_splits)
    have wrap: "int64 (num + 1) = num + 1"
      using lt ge by (intro int64_id) (auto simp: MinInt64_def MaxInt64_def)
    have rest: "\<forall>k \<in> backup_numbers base bs. k < MaxInt64"
      using Cons.prems(1) Some by (simp add: backup_numbers_Cons)
    show ?thesis
    proof (cases "num \<ge> mx")
      case True
      have "backup_name_loop base (b # bs) mx = backup_name_loop base bs (num + 1)"
        using Some True wrap by (simp add: backup_name_loop_step del: backup_name_loop.simps)
      also have "\<dots> = Max (insert (num + 1) ?S)"
        using rest lt True Cons.prems(2) by (intro Cons.IH) auto
      also have "\<dots> = Max (insert mx (insert (num + 1) ?S))"
        using fin True by (subst Max_insert_le) auto
      finally show ?thesis
        using Some by (simp only: backup_numbers_Cons option.case image_insert)
    next
      case False
      have "backup_name_loop base (b # bs) mx = backup_name_loop base bs mx"
        using Some False by (simp add: backup_name_loop_step del: backup_name_loop.simps)
      also have "\<dots> = Max (insert mx ?S)"
        using rest Cons.prems by (intro Cons.IH) auto
      also have "\<dots> = Max (insert mx (insert (num + 1) ?S))"
        using fin False by (subst Max_insert_ge) auto
      finally show ?thesis
        using Some by (simp only: backup_numbers_Cons option.case image_insert)
    qed
  qed
qed

lemma Contains_slash: "Contains s ''/'' \<longleftrightarrow> CHR ''/'' \<in> set s"
  by (induction s) (auto simp: HasPrefix_def)

lemma of_char_digit_char: "0 \<le> d \<Longrightarrow> d < 10 \<Longrightarrow> of_char (digit_char d) = (48 + d :: int)"
  by (simp add: digit_char_def of_char_of)

lemma digit_char_not_slash: "0 \<le> d \<Longrightarrow> d < 10 \<Longrightarrow> digit_char d \<noteq> CHR ''/''"
proof
  assume d: "0 \<le> d" "d < 10" and eq: "digit_char d = CHR ''/''"
  have "of_char (digit_char d) = (of_char CHR ''/'' :: int)"
    by (simp only: eq)
  with d show False
    by (simp add: of_char_digit_char)
qed

lemma show_digits_no_slash: "0 \<le> n \<Longrightarrow> CHR ''/'' \<notin> set (show_digits n)"
proof (induction n rule: show_digits.induct)
  case (1 n)
  show ?case
  proof (cases "n < 10")
    case True
    with 1 show ?thesis
      by (subst show_digits.simps) (simp add: digit_char_not_slash [THEN not_sym])
  next
    case False
    then have "CHR ''/'' \<notin> set (show_digits (n div 10))"
      using 1 by simp
    moreover have "digit_char (n mod 10) \<noteq> CHR ''/''"
      by (rule digit_char_not_slash) simp_all
    ultimately show ?thesis
      using False by (subst show_digits.simps) (auto dest: not_sym)
  qed
qed

lemma show_int_no_slash: "CHR ''/'' \<notin> set (show_int i)"
  by (simp add: show_int_def show_digits_no_slash)

lemma generated_backup_name_no_slash:
  "\<not> Contains (generated_backup_name volumeName backups) ''/''"
  by (simp add: Contains_slash generated_backup_name_def show_int_no_slash)

lemma Max_succ_image:
  assumes "finite S" and "S \<noteq> {}"
  shows "Max ((\<lambda>k::int. k + 1) ` S) = Max S + 1"
proof -
  have "mono (\<lambda>k::int. k + 1)" by (simp add: mono_def)
  from mono_Max_commute [OF this assms] show ?thesis by simp
qed

lemma Max_insert_zero_succ:
  assumes "finite (S::int set)"
  shows "Max (insert 0 ((\<lambda>k. k + 1) ` S)) = (if \<exists>k \<in> S. 0 \<le> k then Max S + 1 else 0)"
proof (cases "S = {}")
  case True
  then show ?thesis by simp
next
  case False
  have eq: "Max (insert 0 ((\<lambda>k. k + 1) ` S)) = max 0 (Max S + 1)"
    using assms False by (simp add: Max_succ_image)
  show ?thesis
  proof (cases "\<exists>k \<in> S. 0 \<le> k")
    case True
    then obtain k where "k \<in> S" "0 \<le> k" by blast
    then have "0 \<le> Max S" using assms by (meson Max_ge order_trans)
    with eq True show ?thesis by simp
  next
    case no: False
    have "Max S \<in> S" using assms False by (rule Max_in)
    with no have "Max S < 0" by auto
    with eq no show ?thesis by simp
  qed
qed

lemma next_backup_number_largest:
  assumes "\<forall>k \<in> backup_numbers (volumeName @ ''/backup'') backups. k < MaxInt64"
  shows "next_backup_number volumeName backups =
           (if \<exists>k \<in> backup_numbers (volumeName @ ''/backup'') backups. 0 \<le> k
            then Max (backup_numbers (volumeName @ ''/backup'') backups) + 1 else 0)"
proof -
  have base: "volumeName @ SnapshotDelimiter @ ''backup'' = volumeName @ ''/backup''"
    by (simp add: SnapshotDelimiter_def)
  have "next_backup_number volumeName backups =
          Max (insert 0 ((\<lambda>k. k + 1) ` backup_numbers (volumeName @ ''/backup'') backups))"
    unfolding next_backup_number_def base
    using assms by (intro backup_name_loop_Max) (simp_all add: MaxInt64_def)
  then show ?thesis
    by (simp only: Max_insert_zero_succ [OF finite_backup_numbers])
qed

lemma backup_numbers_set_cong:
  "set backups' = set backups \<Longrightarrow> backup_numbers base backups' = backup_numbers base backups"
  by (simp add: backup_numbers_def)

text \<open>Three names of existing backups, scanned.\<close>

lemma backup_number_vol_backup0: "backup_number ''vol/backup'' ''vol/backup0'' = Some 0"
  by code_simp
lemma backup_number_vol_backup3: "backup_number ''vol/backup'' ''vol/backup3'' = Some 3"
  by code_simp
lemma backup_number_vol_other: "backup_number ''vol/backup'' ''vol/other'' = None"
  by code_simp

text \<open>
  Claim C8, as the code has it. When the requested name is empty, the generated name is
  \<open>backupN\<close>, where \<open>N\<close> is one more than the largest number that is not negative among
  those \<open>Sscanf\<close> reads (leading white space skipped, an optional sign, decimal digits,
  whatever follows ignored, the value within 64 bits) after the prefix
  \<open>volumeName/backup\<close> of an existing backup name, and 0 when there is no such number;
  this as long as none of the numbers read is the largest 64-bit integer, for which
  \<open>num + 1\<close> wraps around. Under that condition the name is the same for every order in
  which the existing names are enumerated.
\<close>

theorem generated_backup_name_largest:
  assumes "\<forall>k \<in> backup_numbers (volumeName @ ''/backup'') backups. k < MaxInt64"
  shows "generated_backup_name volumeName backups =
           ''backup'' @ show_int
             (if \<exists>k \<in> backup_numbers (volumeName @ ''/backup'') backups. 0 \<le> k
              then Max (backup_numbers (volumeName @ ''/backup'') backups) + 1 else 0)
         \<and> (\<forall>backups'. mset backups' = mset backups \<longrightarrow>
               generated_backup_name volumeName backups' = generated_backup_name volumeName backups)"
proof
  show "generated_backup_name volumeName backups =
           ''backup'' @ show_int
             (if \<exists>k \<in> backup_numbers (volumeName @ ''/backup'') backups. 0 \<le> k
              then Max (backup_numbers (volumeName @ ''/backup'') backups) + 1 else 0)"
    using next_backup_number_largest [OF assms] by (simp only: generated_backup_name_def)
next
  show "\<forall>backups'. mset backups' = mset backups \<longrightarrow>
          generated_backup_name volumeName backups' = generated_backup_name volumeName backups"
  proof (intro allI impI)
    fix backups'
    assume "mset backups' = mset backups"
    then have s: "set backups' = set backups" by (rule mset_eq_setD)
    then have n: "backup_numbers (volumeName @ ''/backup'') backups'
                = backup_numbers (volumeName @ ''/backup'') backups"
      by (rule backup_numbers_set_cong)
    with assms have "\<forall>k \<in> backup_numbers (volumeName @ ''/backup'') backups'. k < MaxInt64"
      by simp
    from next_backup_number_largest [OF this] next_backup_number_largest [OF assms] n
    show "generated_backup_name volumeName backups' = generated_backup_name volumeName backups"
      by (simp only: generated_backup_name_def)
  qed
qed

theorem generated_backup_name_largest_witness:
  "generated_backup_name ''vol'' [''vol/backup3'', ''vol/other'', ''vol/backup0''] = ''backup4''
   \<and> generated_backup_name ''vol'' [''vol/backup0'', ''vol/backup3'', ''vol/other'']
       = generated_backup_name ''vol'' [''vol/backup3'', ''vol/other'', ''vol/backup0'']"
proof -
  have nums: "backup_numbers ''vol/backup'' [''vol/backup3'', ''vol/other'', ''vol/backup0''] = {3, 0}"
    by (simp add: backup_numbers_Cons backup_numbers_Nil backup_number_vol_backup0 backup_number_vol_backup3 backup_number_vol_other)
  have h: "\<forall>k \<in> backup_numbers (''vol'' @ ''/backup'') [''vol/backup3'', ''vol/other'', ''vol/backup0'']. k < MaxInt64"
    by (simp add: nums MaxInt64_def)
  have s4: "show_int 4 = ''4''" by code_simp
  have m: "mset [''vol/backup0'', ''vol/backup3'', ''vol/other''] = mset [''vol/backup3'', ''vol/other'', ''vol/backup0'']"
    by simp
  from generated_backup_name_largest [OF h] nums s4 m show ?thesis
    by simp
qed


text \<open>
  Claim C8 as it is worded counts only the names that are the prefix followed by decimal
  digits. The code also counts a name whose number carries a sign: with the single
  existing backup \<open>vol/backup+7\<close> the handler generates \<open>backup8\<close>, where the claim
  gives \<open>backup0\<close>.
\<close>

theorem generated_backup_name_sign_counterexample:
  "generated_backup_name ''vol'' [''vol/backup+7''] = ''backup8''
   \<and> claimed_backup_name ''vol'' [''vol/backup+7''] = ''backup0''"
  by code_simp

text \<open>
  At the largest 64-bit integer the increment wraps around, and the order of the
  enumeration then decides the name.
\<close>

lemma generated_backup_name_wraps:
  "generated_backup_name ''vol'' [''vol/backup3'', ''vol/backup9223372036854775807'']
     = ''backup-9223372036854775808''
   \<and> generated_backup_name ''vol'' [''vol/backup9223372036854775807'', ''vol/backup3'']
     = ''backup4''"
  by code_simp

subsection \<open>Backup names with a slash\<close>

lemma backupsPost_name_generated_no_slash:
  "Name (r_req rq) = '''' \<Longrightarrow> backupsPost_name env rq = Inr name \<Longrightarrow> \<not> Contains name ''/''"
  by (auto simp: backupsPost_name_def generated_backup_name_no_slash split: sum.splits)

text \<open>
  A requested name with a slash leaves no operation behind, whichever earlier check the
  request may have failed.
\<close>

lemma backupsPost_slash_no_operation:
  "body_Unmarshal env = Inr req \<Longrightarrow> Contains (Name req) ''/'' \<Longrightarrow>
   snd (storagePoolVolumeTypeCustomBackupsPost env) = []"
proof -
  assume u: "body_Unmarshal env = Inr req" and c: "Contains (Name req) ''/''"
  from c have ne: "Name req \<noteq> ''''" by auto
  show ?thesis
  proof (cases "backupsPost_request env")
    case (Inl resp)
    then show ?thesis by (simp add: storagePoolVolumeTypeCustomBackupsPost_def)
  next
    case (Inr rq)
    then have "r_req rq = req"
      using u by (auto simp: backupsPost_request_def split: sum.splits option.splits if_splits)
    with Inr ne c show ?thesis
      by (simp add: storagePoolVolumeTypeCustomBackupsPost_def backupsPost_name_def)
  qed
qed

lemma backupPost_slash_no_operation:
  "body_Decode_rename env = Inr req \<Longrightarrow> Contains (NewName req) ''/'' \<Longrightarrow>
   snd (storagePoolVolumeTypeCustomBackupPost env) = []"
proof -
  assume u: "body_Decode_rename env = Inr req" and c: "Contains (NewName req) ''/''"
  show ?thesis
  proof (cases "backupPost_request env")
    case (Inl resp)
    then show ?thesis by (simp add: storagePoolVolumeTypeCustomBackupPost_def)
  next
    case (Inr rq)
    then have "n_req rq = req"
      using u by (auto simp: backupPost_request_def split: sum.splits option.splits if_splits)
    with Inr c show ?thesis
      by (simp add: storagePoolVolumeTypeCustomBackupPost_def)
  qed
qed

text \<open>
  Claim C10. A request to create a backup has its effective name once the body is decoded
  and, when no name is requested, one is generated (\<open>backupsPost_name\<close>); a request to
  rename has it once the body is decoded. Whenever that name contains a slash, the
  handler answers \<open>BadRequest\<close> with the message "Backup names may not contain slashes"
  and has registered no operation, so that nothing is created or renamed. No operation
  is registered either when a request with such a name in its body fails a check that
  comes before the validation of the name.
\<close>

theorem backup_name_with_slash_rejected:
  "(backupsPost_request env = Inr rq \<longrightarrow> backupsPost_name env rq = Inr name \<longrightarrow>
      Contains name ''/'' \<longrightarrow>
      storagePoolVolumeTypeCustomBackupsPost env
        = (BadRequest (errors_New ''Backup names may not contain slashes''), []))
   \<and> (backupPost_request env' = Inr rq' \<longrightarrow> Contains (NewName (n_req rq')) ''/'' \<longrightarrow>
      storagePoolVolumeTypeCustomBackupPost env'
        = (BadRequest (errors_New ''Backup names may not contain slashes''), []))
   \<and> (body_Unmarshal env = Inr req \<longrightarrow> Contains (Name req) ''/'' \<longrightarrow>
      snd (storagePoolVolumeTypeCustomBackupsPost env) = [])
   \<and> (body_Decode_rename env' = Inr req' \<longrightarrow> Contains (NewName req') ''/'' \<longrightarrow>
      snd (storagePoolVolumeTypeCustomBackupPost env') = [])"
proof (intro conjI impI)
  assume "backupsPost_request env = Inr rq" "backupsPost_name env rq = Inr name"
    "Contains name ''/''"
  then show "storagePoolVolumeTypeCustomBackupsPost env
        = (BadRequest (errors_New ''Backup names may not contain slashes''), [])"
    by (simp add: storagePoolVolumeTypeCustomBackupsPost_def)
next
  assume "backupPost_request env' = Inr rq'" "Contains (NewName (n_req rq')) ''/''"
  then show "storagePoolVolumeTypeCustomBackupPost env'
        = (BadRequest (errors_New ''Backup names may not contain slashes''), [])"
    by (simp add: storagePoolVolumeTypeCustomBackupPost_def)
next
  assume "body_Unmarshal env = Inr req" "Contains (Name req) ''/''"
  then show "snd (storagePoolVolumeTypeCustomBackupsPost env) = []"
    by (rule backupsPost_slash_no_operation)
next
  assume "body_Decode_rename env' = Inr req'" "Contains (NewName req') ''/''"
  then show "snd (storagePoolVolumeTypeCustomBackupPost env') = []"
    by (rule backupPost_slash_no_operation)
qed

theorem backup_name_with_slash_rejected_witness:
  "storagePoolVolumeTypeCustomBackupsPost (sample_env ''a/b'')
     = (BadRequest (errors_New ''Backup names may not contain slashes''), [])
   \<and> storagePoolVolumeTypeCustomBackupPost (sample_env ''a/b'')
     = (BadRequest (errors_New ''Backup names may not contain slashes''), [])"
proof -
  let ?rq = "\<lparr>r_volumeName = ''vol'', r_poolName = ''default'', r_volumeTypeName = ''custom'',
              r_projectName = ''default'', r_poolID = 1, r_volumeID = 7,
              r_req = \<lparr>Name = ''a/b'', ExpiresAt = 0, VolumeOnly = False,
                       OptimizedStorage = False, CompressionAlgorithm = '''',
                       Target = None\<rparr>\<rparr>"
  let ?rq' = "\<lparr>n_volumeName = ''vol'', n_poolName = ''default'', n_volumeTypeName = ''custom'',
               n_backupName = ''backup0'', n_projectName = ''default'',
               n_req = \<lparr>NewName = ''a/b''\<rparr>\<rparr>"
  have 1: "backupsPost_request (sample_env ''a/b'') = Inr ?rq"
    by (simp add: backupsPost_request_def sample_env_def)
  have 2: "backupsPost_name (sample_env ''a/b'') ?rq = Inr ''a/b''"
    by (simp add: backupsPost_name_def)
  have 3: "Contains ''a/b'' ''/''"
    by (simp add: HasPrefix_def)
  have 4: "backupPost_request (sample_env ''a/b'') = Inr ?rq'"
    by (simp add: backupPost_request_def sample_env_def)
  from backup_name_with_slash_rejected
         [of "sample_env ''a/b''" ?rq "''a/b''" "sample_env ''a/b''" ?rq'
             "r_req ?rq" "n_req ?rq'"] 1 2 3 4
  show ?thesis
    by (simp add: HasPrefix_def)
qed

subsection \<open>The validity check of certificates\<close>

lemma BitLen_nonneg: "0 \<le> BitLen n"
proof (induction n rule: BitLen.induct)
  case (1 n)
  then show ?case
    by (subst BitLen.simps) auto
qed

lemma BitLen_bounds:
  "0 < n \<Longrightarrow> 2 ^ nat (BitLen n - 1) \<le> n \<and> n < 2 ^ nat (BitLen n)"
proof (induction n rule: BitLen.induct)
  case (1 n)
  show ?case
  proof (cases "n = 1")
    case True
    have "BitLen 1 = 1"
      by (subst BitLen.simps, subst BitLen.simps) simp
    with True show ?thesis by simp
  next
    case False
    with "1.prems" have n2: "2 \<le> n" by simp
    then have h: "0 < \<bar>n\<bar> div 2" by simp
    have abs: "\<bar>n\<bar> = n" using n2 by simp
    from "1.IH" h "1.prems"
    have IH: "2 ^ nat (BitLen (n div 2) - 1) \<le> n div 2 \<and> n div 2 < 2 ^ nat (BitLen (n div 2))"
      by (simp add: abs)
    have pos: "1 \<le> BitLen (n div 2)"
      using h abs BitLen_nonneg [of "n div 2 div 2"]
      by (subst BitLen.simps) auto
    have unfold: "BitLen n = 1 + BitLen (n div 2)"
      using n2 by (subst BitLen.simps) (simp add: abs)
    have e1: "nat (BitLen n - 1) = Suc (nat (BitLen (n div 2) - 1))"
      using pos unfold by simp
    have e2: "nat (BitLen n) = Suc (nat (BitLen (n div 2)))"
      using pos unfold by simp
    from IH show ?thesis
      unfolding e1 e2 by auto
  qed
qed

lemma BitLen_unique:
  assumes "2 ^ k \<le> n" and "n < 2 ^ Suc k"
  shows "BitLen n = int k + 1"
proof -
  have pos: "0 < n"
    using assms(1) by (smt (verit) zero_less_power)
  from BitLen_bounds [OF pos]
  have b: "2 ^ nat (BitLen n - 1) \<le> n" "n < 2 ^ nat (BitLen n)"
    by simp_all
  have "(2::int) ^ k < 2 ^ nat (BitLen n)"
    using assms(1) b(2) by linarith
  then have 1: "k < nat (BitLen n)"
    by (simp add: power_strict_increasing_iff)
  have "(2::int) ^ nat (BitLen n - 1) < 2 ^ Suc k"
    using assms(2) b(1) by linarith
  then have 2: "nat (BitLen n - 1) < Suc k"
    by (simp only: power_strict_increasing_iff [of "2::int"]) 
  from 1 2 show ?thesis
    by linarith
qed

text \<open>What the code checks, in terms of the size in bytes.\<close>

lemma certificateValidate_None_iff:
  "certificateValidate now1 now2 cert = None \<longleftrightarrow>
     NotBefore cert \<le> now1 \<and> now2 \<le> NotAfter cert \<and>
     (PublicKeyAlgorithm cert = RSA \<longrightarrow>
        (\<exists>pubKey. PublicKey cert = RSAPublicKey pubKey \<and> 2048 \<le> Size pubKey * 8))"
  by (auto simp: certificateValidate_def split: public_key.splits)

lemma Size_bits_rounds_up:
  assumes "2 ^ 2040 \<le> rsa_N pub" and "rsa_N pub < 2 ^ 2048"
  shows "Size pub * 8 = 2048"
proof -
  have pos: "0 < rsa_N pub"
    using assms(1) by (smt (verit) zero_less_power)
  from BitLen_bounds [OF pos]
  have b: "2 ^ nat (BitLen (rsa_N pub) - 1) \<le> rsa_N pub" "rsa_N pub < 2 ^ nat (BitLen (rsa_N pub))"
    by simp_all
  have "(2::int) ^ 2040 < 2 ^ nat (BitLen (rsa_N pub))"
    using assms(1) b(2) by linarith
  then have 1: "2040 < nat (BitLen (rsa_N pub))"
    by (simp only: power_strict_increasing_iff [of "2::int"])
  have "(2::int) ^ nat (BitLen (rsa_N pub) - 1) < 2 ^ 2048"
    using assms(2) b(1) by linarith
  then have 2: "nat (BitLen (rsa_N pub) - 1) < 2048"
    by (simp only: power_strict_increasing_iff [of "2::int"])
  from 1 2 have "2041 \<le> BitLen (rsa_N pub) \<and> BitLen (rsa_N pub) \<le> 2048"
    by linarith
  then show ?thesis
    unfolding Size_def by presburger
qed

text \<open>
  Claim C9 at a key of 2041 bits. The claim has the check fail for an RSA key of fewer
  than 2048 bits; the code compares the size in bytes, rounded up, times 8, and accepts
  the certificate.
\<close>

theorem certificateValidate_accepts_2041_bits:
  "BitLen modulus_2041 = 2041
   \<and> PublicKeyAlgorithm cert_2041 = RSA
   \<and> PublicKey cert_2041 = RSAPublicKey \<lparr>rsa_N = modulus_2041, rsa_E = 65537\<rparr>
   \<and> certificateValidate 500 500 cert_2041 = None"
proof -
  have lo: "(2::int) ^ 2040 \<le> modulus_2041"
    by (simp add: modulus_2041_def)
  have "(2::int) ^ 2040 + 1 < 2 ^ 2040 + 2 ^ 2040"
    by simp
  then have hi: "modulus_2041 < 2 ^ Suc 2040"
    by (simp add: modulus_2041_def)
  have bits: "BitLen modulus_2041 = 2041"
    using BitLen_unique [OF lo hi] by simp
  have size: "Size \<lparr>rsa_N = modulus_2041, rsa_E = 65537\<rparr> * 8 = 2048"
    by (simp add: Size_def bits)
  show ?thesis
    using bits size by (simp add: certificateValidate_def cert_2041_def)
qed

subsection \<open>The migration arguments\<close>

text \<open>
  Claim C3, as the code has it. The state channel and the filesystem channel are each
  established by a function the caller supplies, which takes a cancellation context and
  returns a connection or an error. The control channel is not established by such a
  factory: the caller supplies the two functions \<open>ControlSend\<close> and \<open>ControlReceive\<close>,
  each of which takes a protocol message and returns an error, and neither takes a
  context.
\<close>

theorem MigrateArgs_channels:
  "field_type MigrateArgs ''StateConn''
     = Some (GoFunc [GoNamed ''context.Context''] [GoNamed ''io.ReadWriteCloser'', GoError])
   \<and> field_type MigrateArgs ''FilesystemConn''
     = Some (GoFunc [GoNamed ''context.Context''] [GoNamed ''io.ReadWriteCloser'', GoError])
   \<and> context_factory_field MigrateArgs ''StateConn''
   \<and> context_factory_field MigrateArgs ''FilesystemConn''
   \<and> field_type MigrateArgs ''ControlSend'' = Some (GoFunc [GoNamed ''proto.Message''] [GoError])
   \<and> field_type MigrateArgs ''ControlReceive'' = Some (GoFunc [GoNamed ''proto.Message''] [GoError])
   \<and> \<not> takes_context (GoFunc [GoNamed ''proto.Message''] [GoError])
   \<and> \<not> is_conn_factory (GoFunc [GoNamed ''proto.Message''] [GoError])"
  by (simp add: field_type_def MigrateArgs_def context_factory_field_def)

text \<open>
  Claim C3 as it is worded fails at the control channel: \<open>ControlSend\<close> has the single
  parameter \<open>proto.Message\<close>.
\<close>

theorem MigrateArgs_control_counterexample:
  "\<not> channels_by_context_factories MigrateArgs
   \<and> \<not> context_factory_field MigrateArgs ''ControlSend''
   \<and> field_type MigrateArgs ''ControlSend'' = Some (GoFunc [GoNamed ''proto.Message''] [GoError])
   \<and> \<not> takes_context (GoFunc [GoNamed ''proto.Message''] [GoError])"
  by (simp add: channels_by_context_factories_def context_factory_field_def field_type_def
      MigrateArgs_def)

text \<open>
  Claim C5, as the code has it. The struct passed to \<open>MigrateSend\<close> has exactly the ten
  fields below: the two control functions, the two connection factories, the snapshots
  flag, the live flag, a disconnect callback, the cluster-move source name, the storage
  pool and the flag that allows an inconsistent copy. It is the only parameter of
  \<open>MigrateSend\<close>, which belongs to the interface \<open>Instance\<close>: the instance is the receiver
  of the call and not part of the struct.
\<close>

theorem MigrateSendArgs_fields:
  "map fst MigrateSendArgs
     = [''ControlSend'', ''ControlReceive'', ''StateConn'', ''FilesystemConn'', ''Snapshots'',
        ''Live'', ''Disconnect'', ''ClusterMoveSourceName'', ''StoragePool'', ''AllowInconsistent'']
   \<and> field_type MigrateSendArgs ''Snapshots'' = Some GoBool
   \<and> field_type MigrateSendArgs ''Live'' = Some GoBool
   \<and> field_type MigrateSendArgs ''AllowInconsistent'' = Some GoBool
   \<and> field_type MigrateSendArgs ''ClusterMoveSourceName'' = Some GoString
   \<and> field_type MigrateSendArgs ''StoragePool'' = Some GoString
   \<and> field_type MigrateSendArgs ''Disconnect'' = Some (GoFunc [] [])
   \<and> field_type Instance_migration_methods ''MigrateSend''
       = Some (GoFunc [GoNamed ''MigrateSendArgs''] [GoError])
   \<and> carries_exactly (filter (\<lambda>(name, t). name \<noteq> ''Disconnect'') MigrateSendArgs)
        (remove1 InstanceIdentity specified_items)"
  by (simp add: MigrateSendArgs_def MigrateArgs_def field_type_def
      Instance_migration_methods_def carries_exactly_def specified_items_def
      List.map_filter_def)

text \<open>
  Claim C5 as it is worded fails twice: no field of the struct holds the identity of
  the instance, and the field \<open>Disconnect\<close> is none of the listed items.
\<close>

theorem MigrateSendArgs_counterexample:
  "\<not> carries_exactly MigrateSendArgs specified_items
   \<and> InstanceIdentity \<notin> set (List.map_filter item_of_field (map fst MigrateSendArgs))
   \<and> field_type MigrateSendArgs ''Disconnect'' = Some (GoFunc [] [])
   \<and> item_of_field ''Disconnect'' = None"
  by (simp add: MigrateSendArgs_def MigrateArgs_def field_type_def carries_exactly_def
      specified_items_def List.map_filter_def)

subsection \<open>The arguments of a checkpoint\<close>



subsection \<open>The checkpoint adapter\<close>

text \<open>
  Claim C4. The capability interface has exactly two variants, the live-capable
  implementation and the unsupported stub, and on the unsupported stub
  \<open>CanLiveMigrate\<close> is the boolean \<open>False\<close>.
\<close>

theorem CheckpointAdapter_two_variants:
  "(\<forall>adapter. (\<exists>tool features. adapter = LiveCapable tool features) \<or> adapter = Unsupported)
   \<and> (\<forall>tool features. LiveCapable tool features \<noteq> Unsupported)
   \<and> CanLiveMigrate Unsupported = False"
proof (intro conjI allI)
  fix adapter
  show "(\<exists>tool features. adapter = LiveCapable tool features) \<or> adapter = Unsupported"
    by (cases adapter) auto
qed simp_all

subsection \<open>The operation lock\<close>

lemma filter_map_le:
  "(\<And>x. P (f x) \<Longrightarrow> P x) \<Longrightarrow> length (filter P (map f xs)) \<le> length (filter P xs)"
  by (induction xs) (auto simp: le_Suc_eq)

lemma held_lock_None_iff: "held_lock reg i = None \<longleftrightarrow> non_terminal_locks reg i = []"
  by (auto simp: held_lock_def non_terminal_locks_def find_None_iff filter_empty_conv)

lemma held_other_instance: "lock_instance l = i \<Longrightarrow> i \<noteq> j \<Longrightarrow> \<not> held j l"
  by (simp add: held_def)

lemma single_holder_Acquire:
  assumes "single_holder reg"
  shows "single_holder (snd (Acquire reg i a))"
proof (cases "held_lock reg i")
  case None
  then have e: "non_terminal_locks reg i = []"
    by (simp add: held_lock_None_iff)
  show ?thesis
    unfolding single_holder_def
  proof
    fix j
    show "length (non_terminal_locks (snd (Acquire reg i a)) j) \<le> 1"
    proof (cases "j = i")
      case True
      with None e show ?thesis
        by (simp add: Acquire_def non_terminal_locks_def)
    next
      case False
      then have "non_terminal_locks (snd (Acquire reg i a)) j = non_terminal_locks reg j"
        using None by (simp add: Acquire_def non_terminal_locks_def held_def)
      with assms show ?thesis
        by (simp add: single_holder_def)
    qed
  qed
next
  case (Some l)
  with assms show ?thesis
    by (simp add: Acquire_def)
qed

lemma single_holder_map:
  assumes "single_holder reg" and "\<And>i l. held i (f l) \<Longrightarrow> held i l"
  shows "single_holder (reg\<lparr>entries := map f (entries reg)\<rparr>)"
  unfolding single_holder_def
proof
  fix i
  have "length (filter (held i) (map f (entries reg))) \<le> length (filter (held i) (entries reg))"
    using assms(2) by (rule filter_map_le)
  also have "\<dots> \<le> 1"
    using assms(1) by (simp add: single_holder_def non_terminal_locks_def)
  finally show "length (non_terminal_locks (reg\<lparr>entries := map f (entries reg)\<rparr>) i) \<le> 1"
    by (simp add: non_terminal_locks_def)
qed

lemma single_holder_update_lock:
  assumes "single_holder reg" and "\<And>i l. held i (f l) \<Longrightarrow> held i l"
  shows "single_holder (update_lock h f reg)"
  unfolding update_lock_def
  using assms by (intro single_holder_map) (auto split: if_splits)

lemma single_holder_MarkRunning: "single_holder reg \<Longrightarrow> single_holder (snd (MarkRunning reg h))"
  unfolding MarkRunning_def
  by (auto split: option.splits intro!: single_holder_update_lock simp: held_def)

lemma single_holder_Done: "single_holder reg \<Longrightarrow> single_holder (Done reg h err)"
  unfolding Done_def
  by (intro single_holder_update_lock) (auto simp: held_def split: if_splits)

lemma single_holder_Reset: "single_holder reg \<Longrightarrow> single_holder (Reset reg i)"
  unfolding Reset_def
  by (intro single_holder_map) (auto simp: held_def split: if_splits)

lemma single_holder_Prune: "single_holder reg \<Longrightarrow> single_holder (Prune reg)"
proof -
  have "\<And>i. filter (held i) (filter (\<lambda>l. \<not> terminal (lock_state l)) (entries reg))
            = filter (held i) (entries reg)"
    by (auto simp: held_def intro: filter_cong)
  then show "single_holder reg \<Longrightarrow> single_holder (Prune reg)"
    by (simp add: single_holder_def Prune_def non_terminal_locks_def)
qed

lemma single_holder_call: "single_holder reg \<Longrightarrow> single_holder (call reg c)"
  by (cases c)
    (simp_all add: single_holder_Acquire single_holder_MarkRunning single_holder_Done
      single_holder_Reset single_holder_Prune)

lemma single_holder_foldl: "single_holder reg \<Longrightarrow> single_holder (foldl call reg calls)"
  by (induction calls arbitrary: reg) (simp_all add: single_holder_call)

lemma single_holder_run_calls: "single_holder (run_calls calls)"
  unfolding run_calls_def
  by (rule single_holder_foldl) (simp add: single_holder_def empty_registry_def non_terminal_locks_def)

lemma Acquire_conflict:
  "held_lock reg i = Some l \<Longrightarrow> lock_action l \<noteq> a \<Longrightarrow> Acquire reg i a = (Inl LockConflict, reg)"
  by (simp add: Acquire_def)

lemma Acquire_existing:
  "held_lock reg i = Some l \<Longrightarrow> lock_action l = a \<Longrightarrow>
   Acquire reg i a = (Inr (ExistingLock (lock_handle l)), reg)"
  by (simp add: Acquire_def)

lemma Acquire_free:
  "held_lock reg i = None \<Longrightarrow> fst (Acquire reg i a) = Inr (NewLock (next_handle reg))"
  by (simp add: Acquire_def)

lemma only_holder:
  assumes "single_holder reg" and "held_lock reg i = Some l"
    and "x \<in> set (entries reg)" and "held i x"
  shows "x = l"
proof -
  from assms(2) have l: "l \<in> set (entries reg)" "held i l"
    by (auto simp: held_lock_def find_Some_iff)
  then have "l \<in> set (non_terminal_locks reg i)"
    by (simp add: non_terminal_locks_def)
  moreover have "x \<in> set (non_terminal_locks reg i)"
    using assms(3,4) by (simp add: non_terminal_locks_def)
  moreover have "length (non_terminal_locks reg i) \<le> 1"
    using assms(1) by (simp add: single_holder_def)
  ultimately show ?thesis
    by (cases "non_terminal_locks reg i") auto
qed

lemma Done_releases:
  assumes "single_holder reg" and "held_lock reg i = Some l" and "lock_state l = Running"
  shows "held_lock (Done reg (lock_handle l) err) i = None"
proof -
  define g :: "InstanceOperationLock \<Rightarrow> InstanceOperationLock"
    where "g = (\<lambda>x. if lock_handle x = lock_handle l
                    then (if lock_state x = Running
                          then x\<lparr>lock_state := (if err = None then Succeeded else Failed),
                                 lock_terminal_error := err\<rparr>
                          else x)
                    else x)"
  have "\<not> held i (g x)" if x: "x \<in> set (entries reg)" for x
  proof (cases "held i x")
    case True
    with assms(1,2) x have "x = l" by (rule only_holder)
    with assms(3) show ?thesis by (simp add: held_def g_def)
  next
    case False
    then show ?thesis by (auto simp: held_def g_def)
  qed
  then have "find (held i) (map g (entries reg)) = None"
    by (simp add: find_None_iff)
  moreover have "Done reg (lock_handle l) err = reg\<lparr>entries := map g (entries reg)\<rparr>"
    by (simp add: Done_def update_lock_def g_def)
  ultimately show ?thesis
    by (simp add: held_lock_def)
qed

lemma Reset_releases: "held_lock (Reset reg i) i = None"
proof -
  define g :: "InstanceOperationLock \<Rightarrow> InstanceOperationLock"
    where "g = (\<lambda>l. if held i l
                    then l\<lparr>lock_state := Failed, lock_terminal_error := Some Aborted\<rparr>
                    else l)"
  have "\<not> held i (g x)" for x
    by (cases "held i x") (simp_all add: g_def held_def)
  then have "find (held i) (map g (entries reg)) = None"
    by (simp add: find_None_iff)
  moreover have "Reset reg i = reg\<lparr>entries := map g (entries reg)\<rparr>"
    by (simp add: Reset_def g_def)
  ultimately show ?thesis
    by (simp add: held_lock_def)
qed

lemma next_handle_Done: "next_handle (Done reg h err) = next_handle reg"
  by (simp add: Done_def update_lock_def)

lemma next_handle_Reset: "next_handle (Reset reg i) = next_handle reg"
  by (simp add: Reset_def)

text \<open>An example of a registry: one lock, acquired and marked running.\<close>

lemma sample_registry:
  "run_calls [CallAcquire ''web1'' ''start'', CallMarkRunning 0]
     = \<lparr>entries = [\<lparr>lock_handle = 0, lock_instance = ''web1'', lock_action = ''start'',
                     lock_state = Running, lock_terminal_error = None\<rparr>],
        next_handle = 1\<rparr>"
  by (simp add: run_calls_def empty_registry_def Acquire_def MarkRunning_def held_lock_def
      update_lock_def)

text \<open>
  Claim C1. In every registry that a sequence of calls leads to, an instance has at
  most one lock that is not terminal. \<open>Acquire\<close> for an instance that holds such a lock
  fails with \<open>LockConflict\<close> when the action differs from the held one, and returns the
  existing handle for awaiting when the action is the same, in both cases leaving the
  registry as it was. Once the held lock has reached a terminal state, by \<open>Done\<close> with or
  without an error or by \<open>Reset\<close>, and whenever the instance holds no lock, \<open>Acquire\<close>
  succeeds with a new handle.
\<close>

theorem operation_lock_exclusive:
  "length (non_terminal_locks (run_calls calls) instanceID) \<le> 1
   \<and> (held_lock (run_calls calls) instanceID = Some l \<longrightarrow>
        (lock_action l \<noteq> action \<longrightarrow>
           Acquire (run_calls calls) instanceID action = (Inl LockConflict, run_calls calls))
        \<and> (lock_action l = action \<longrightarrow>
           Acquire (run_calls calls) instanceID action
             = (Inr (ExistingLock (lock_handle l)), run_calls calls))
        \<and> (lock_state l = Running \<longrightarrow>
           fst (Acquire (Done (run_calls calls) (lock_handle l) err) instanceID action')
             = Inr (NewLock (next_handle (run_calls calls)))))
   \<and> fst (Acquire (Reset (run_calls calls) instanceID) instanceID action')
        = Inr (NewLock (next_handle (run_calls calls)))
   \<and> (held_lock (run_calls calls) instanceID = None \<longrightarrow>
        fst (Acquire (run_calls calls) instanceID action')
          = Inr (NewLock (next_handle (run_calls calls))))"
proof (intro conjI impI)
  show "length (non_terminal_locks (run_calls calls) instanceID) \<le> 1"
    using single_holder_run_calls [of calls] by (simp add: single_holder_def)
next
  assume "held_lock (run_calls calls) instanceID = Some l" "lock_action l \<noteq> action"
  then show "Acquire (run_calls calls) instanceID action = (Inl LockConflict, run_calls calls)"
    by (rule Acquire_conflict)
next
  assume "held_lock (run_calls calls) instanceID = Some l" "lock_action l = action"
  then show "Acquire (run_calls calls) instanceID action
               = (Inr (ExistingLock (lock_handle l)), run_calls calls)"
    by (rule Acquire_existing)
next
  assume "held_lock (run_calls calls) instanceID = Some l" "lock_state l = Running"
  with single_holder_run_calls [of calls]
  have "held_lock (Done (run_calls calls) (lock_handle l) err) instanceID = None"
    by (rule Done_releases)
  then show "fst (Acquire (Done (run_calls calls) (lock_handle l) err) instanceID action')
               = Inr (NewLock (next_handle (run_calls calls)))"
    by (simp add: Acquire_free next_handle_Done)
next
  show "fst (Acquire (Reset (run_calls calls) instanceID) instanceID action')
          = Inr (NewLock (next_handle (run_calls calls)))"
    by (simp add: Acquire_free Reset_releases next_handle_Reset)
next
  assume "held_lock (run_calls calls) instanceID = None"
  then show "fst (Acquire (run_calls calls) instanceID action')
               = Inr (NewLock (next_handle (run_calls calls)))"
    by (rule Acquire_free)
qed

theorem operation_lock_exclusive_witness:
  "Acquire (run_calls [CallAcquire ''web1'' ''start'', CallMarkRunning 0]) ''web1'' ''stop''
     = (Inl LockConflict, run_calls [CallAcquire ''web1'' ''start'', CallMarkRunning 0])
   \<and> Acquire (run_calls [CallAcquire ''web1'' ''start'', CallMarkRunning 0]) ''web1'' ''start''
     = (Inr (ExistingLock 0), run_calls [CallAcquire ''web1'' ''start'', CallMarkRunning 0])
   \<and> fst (Acquire (Done (run_calls [CallAcquire ''web1'' ''start'', CallMarkRunning 0]) 0 None)
            ''web1'' ''stop'') = Inr (NewLock 1)
   \<and> fst (Acquire (run_calls [CallAcquire ''web1'' ''start'', CallMarkRunning 0]) ''db1'' ''stop'')
       = Inr (NewLock 1)"
proof -
  let ?calls = "[CallAcquire ''web1'' ''start'', CallMarkRunning 0]"
  let ?l = "\<lparr>lock_handle = 0, lock_instance = ''web1'', lock_action = ''start'',
             lock_state = Running, lock_terminal_error = None\<rparr>"
  have h: "held_lock (run_calls ?calls) ''web1'' = Some ?l"
    by (simp add: sample_registry held_lock_def held_def)
  have n: "held_lock (run_calls ?calls) ''db1'' = None"
    by (simp add: sample_registry held_lock_def held_def)
  have nh: "next_handle (run_calls ?calls) = 1"
    by (simp add: sample_registry)
  from operation_lock_exclusive [of ?calls "''web1''" ?l "''stop''" None "''stop''"]
       operation_lock_exclusive [of ?calls "''web1''" ?l "''start''" None "''stop''"]
       operation_lock_exclusive [of ?calls "''db1''" ?l "''stop''" None "''stop''"]
       h n nh
  show ?thesis
    by simp
qed

subsection \<open>The cluster move\<close>

lemma move_settled_step: "move_settled m \<Longrightarrow> move_settled (move_step m e)"
  by (cases e) (auto simp: move_settled_def move_start_def move_fail_def move_confirm_def)

lemma move_settled_foldl: "move_settled m \<Longrightarrow> move_settled (foldl move_step m events)"
  by (induction events arbitrary: m) (simp_all add: move_settled_step del: move_step.simps)

lemma move_settled_after: "move_settled (move_after events)"
  unfolding move_after_def by (rule move_settled_foldl) (simp add: move_settled_def)

lemma move_after_cases:
  obtains "move_after events = move_start"
  | "move_after events = move_fail move_start"
  | "move_after events = move_confirm move_start"
  using move_settled_after [of events] by (auto simp: move_settled_def)

lemma no_ack_not_succeeded:
  "ACK \<notin> set events \<Longrightarrow> status m \<noteq> MoveSucceeded \<Longrightarrow>
   status (foldl move_step m events) \<noteq> MoveSucceeded"
proof (induction events arbitrary: m)
  case Nil
  then show ?case by simp
next
  case (Cons e events)
  have "status (move_step m e) \<noteq> MoveSucceeded"
    using Cons.prems by (cases e) (auto simp: move_fail_def)
  with Cons show ?case
    by (simp del: move_step.simps)
qed

lemma move_after_take_settled:
  "\<not> source_record_present (move_after (take n events)) \<Longrightarrow>
   ack_observed (move_after (take n events)) \<and> status (move_after (take n events)) = MoveSucceeded"
  by (rule move_after_cases [of "take n events"])
    (simp_all add: move_start_def move_fail_def move_confirm_def)

lemma Move_settled:
  "Move events = move_fail move_start \<or> Move events = move_confirm move_start"
  by (rule move_after_cases [of events])
    (simp_all add: Move_def move_start_def move_fail_def move_confirm_def)

lemma Move_no_ack: "ACK \<notin> set events \<Longrightarrow> Move events = move_fail move_start"
proof -
  assume no: "ACK \<notin> set events"
  have "status (move_after events) \<noteq> MoveSucceeded"
    unfolding move_after_def
    using no by (rule no_ack_not_succeeded) (simp add: move_start_def)
  moreover have "move_after events = move_start \<or> move_after events = move_fail move_start
      \<or> move_after events = move_confirm move_start"
    using move_settled_after [of events] by (simp add: move_settled_def)
  ultimately show ?thesis
    by (auto simp: Move_def move_start_def move_fail_def move_confirm_def)
qed

text \<open>
  Claim C2. At every moment of a cluster move the identity record of the source is
  gone only if the confirmation of the destination has been observed, and among the
  actions of the coordinator the deletion of the record comes only after the
  confirmation. The move ends succeeded or failed. Whenever it ends failed, the record
  of the source is intact, the workload is runnable at the source and no deletion has
  been performed; and it ends failed whenever the destination never confirms, be it by
  a crash, a disconnect, an abort or silence until the wait times out.
\<close>

theorem source_record_deleted_only_after_ack:
  "(\<not> source_record_present (move_after (take n events)) \<longrightarrow>
      ack_observed (move_after (take n events)))
   \<and> deletion_after_ack False (actions (Move events))
   \<and> (status (Move events) = MoveSucceeded \<or> status (Move events) = MoveFailed)
   \<and> (status (Move events) = MoveFailed \<longrightarrow>
        source_record_present (Move events) \<and> source_runnable (Move events)
        \<and> DeleteSourceRecord \<notin> set (actions (Move events)))
   \<and> (ACK \<notin> set events \<longrightarrow>
        status (Move events) = MoveFailed \<and> source_record_present (Move events)
        \<and> source_runnable (Move events))"
proof (intro conjI impI)
  assume "\<not> source_record_present (move_after (take n events))"
  then show "ack_observed (move_after (take n events))"
    by (simp add: move_after_take_settled)
next
  show "deletion_after_ack False (actions (Move events))"
    using Move_settled [of events]
    by (auto simp: move_start_def move_fail_def move_confirm_def)
next
  show "status (Move events) = MoveSucceeded \<or> status (Move events) = MoveFailed"
    using Move_settled [of events]
    by (auto simp: move_start_def move_fail_def move_confirm_def)
next
  assume "status (Move events) = MoveFailed"
  then have "Move events = move_fail move_start"
    using Move_settled [of events] by (auto simp: move_confirm_def)
  then show "source_record_present (Move events)" "source_runnable (Move events)"
    "DeleteSourceRecord \<notin> set (actions (Move events))"
    by (simp_all add: move_fail_def move_start_def)
next
  assume "ACK \<notin> set events"
  then have "Move events = move_fail move_start"
    by (rule Move_no_ack)
  then show "status (Move events) = MoveFailed" "source_record_present (Move events)"
    "source_runnable (Move events)"
    by (simp_all add: move_fail_def move_start_def)
qed

theorem source_record_deleted_only_after_ack_witness:
  "status (Move [SYNC 4096, FilesystemComplete, Crash]) = MoveFailed
   \<and> source_record_present (Move [SYNC 4096, FilesystemComplete, Crash])
   \<and> source_runnable (Move [SYNC 4096, FilesystemComplete, Crash])
   \<and> source_record_present (move_after (take 2 [SYNC 4096, FilesystemComplete, ACK]))
   \<and> \<not> source_record_present (move_after (take 3 [SYNC 4096, FilesystemComplete, ACK]))
   \<and> ack_observed (move_after (take 3 [SYNC 4096, FilesystemComplete, ACK]))"
proof -
  have 1: "ACK \<notin> set [SYNC 4096, FilesystemComplete, Crash]"
    by simp
  have 2: "\<not> source_record_present (move_after (take 3 [SYNC 4096, FilesystemComplete, ACK]))"
    by (simp add: move_after_def move_start_def move_confirm_def)
  have 3: "source_record_present (move_after (take 2 [SYNC 4096, FilesystemComplete, ACK]))"
    by (simp add: move_after_def move_start_def numeral_2_eq_2)
  from source_record_deleted_only_after_ack [of 0 "[SYNC 4096, FilesystemComplete, Crash]"]
       source_record_deleted_only_after_ack [of 3 "[SYNC 4096, FilesystemComplete, ACK]"]
       1 2 3
  show ?thesis
    by simp
qed

end
